theory Spec2Isabelle
  imports Main "HOL-Library.Sublist"
begin

section \<open>Data model (types.ts)\<close>

text \<open>
  \<^verbatim>\<open>export type ChangeType = 'added' | 'removed' | 'unchanged';\<close>
  The three string literals become the constructors of a datatype.
\<close>

datatype ChangeType = Added | Removed | Unchanged

text \<open>
  \<^verbatim>\<open>interface DiffChunk { id: string; value: string; type: ChangeType; originalIndex: number }\<close>
  The field \<open>id\<close> is written \<open>id'\<close>, since \<open>id\<close> is the identity function of HOL.
  \<open>originalIndex\<close> is an array index, hence a natural number. A JavaScript string is
  a sequence of code units; it is modelled as a \<open>char list\<close>.
\<close>

record DiffChunk =
  id' :: string
  "value" :: string
  type :: ChangeType
  originalIndex :: nat

text \<open>
  The change objects returned by the word-diff library, as \<open>calculateDiffs\<close> reads them:
  a \<open>value\<close> and the two flags \<open>added\<close> and \<open>removed\<close> (a missing flag is falsy).
\<close>

record Change =
  "value" :: string
  added :: bool
  removed :: bool

section \<open>The word diff of the library\<close>

text \<open>
  \<open>calculateDiffs\<close> calls \<^verbatim>\<open>Diff.diffWords(original, revised)\<close> of the third-party
  package \<^verbatim>\<open>diff\<close>, whose code is not part of the repository's sources. The definitions
  of this section follow the algorithm that the specification gives for it (section 4.1):
  tokenize, align the token sequences along a longest common subsequence into keep, insert
  and delete operations, and coalesce consecutive operations of one kind into one chunk.
\<close>

text \<open>
  White space: the code units below 256 that JavaScript's \<^verbatim>\<open>\s\<close> and \<^verbatim>\<open>trim\<close> treat as
  white space (tab, line feed, vertical tab, form feed, carriage return, space, no-break
  space).
\<close>

definition isSpace :: "char \<Rightarrow> bool" where
  "isSpace c \<longleftrightarrow> c \<in> {CHR 0x09, CHR 0x0A, CHR 0x0B, CHR 0x0C, CHR 0x0D, CHR 0x20, CHR 0xA0}"

text \<open>
  Modelled from the spec: the tokenizer of \<open>diffWords\<close> (third-party library, not under
  src/). ``Token boundaries occur at whitespace transitions (tokens include
  trailing/leading whitespace so that reconstruction by concatenation is exact)'': a new
  token starts wherever a non-space character follows a white-space character, so a word
  carries its trailing white space and leading white space of the text is a token of its
  own. This is the tokenization under which the scenarios of the specification come out
  with the chunk boundaries it prints (\<open>"The quick "\<close>, \<open>"brown "\<close>, \<open>"fox"\<close>).
\<close>

fun tokenize :: "string \<Rightarrow> string list" where
  "tokenize [] = []"
| "tokenize [c] = [[c]]"
| "tokenize (c # d # cs) =
     (if isSpace c \<and> \<not> isSpace d then [c] # tokenize (d # cs)
      else (case tokenize (d # cs) of
              [] \<Rightarrow> [[c]]
            | t # ts \<Rightarrow> (c # t) # ts))"

text \<open>The operations of an edit script: keep-run, insert-run, delete-run.\<close>

datatype EditOp = Keep | Insert | Delete

text \<open>
  Modelled from the spec: the length of a longest common subsequence of two token
  sequences (``longest-common-subsequence-style alignment''), by the textbook recursion.
\<close>

fun lcsLength :: "'a list \<Rightarrow> 'a list \<Rightarrow> nat" where
  "lcsLength [] ys = 0"
| "lcsLength (x # xs) [] = 0"
| "lcsLength (x # xs) (y # ys) =
     (if x = y then Suc (lcsLength xs ys)
      else max (lcsLength xs (y # ys)) (lcsLength (x # xs) ys))"

text \<open>
  Modelled from the spec: the edit script over the token sequences. Equal heads are kept;
  otherwise the script follows a longest common subsequence, and where deleting and
  inserting are equally good it deletes first (``all removed content for a region
  precedes added content for the same region'').
\<close>

fun editScript :: "'a list \<Rightarrow> 'a list \<Rightarrow> (EditOp \<times> 'a) list" where
  "editScript [] ys = map (Pair Insert) ys"
| "editScript (x # xs) [] = map (Pair Delete) (x # xs)"
| "editScript (x # xs) (y # ys) =
     (if x = y then (Keep, x) # editScript xs ys
      else if lcsLength (x # xs) ys \<le> lcsLength xs (y # ys)
        then (Delete, x) # editScript xs (y # ys)
        else (Insert, y) # editScript (x # xs) ys)"

text \<open>
  Modelled from the spec: ``coalesce consecutive tokens of the same operation type into a
  single chunk (do not emit one chunk per token)''.
\<close>

fun coalesce :: "(EditOp \<times> string) list \<Rightarrow> (EditOp \<times> string) list" where
  "coalesce [] = []"
| "coalesce ((k, t) # rest) =
     (case coalesce rest of
        [] \<Rightarrow> [(k, t)]
      | (k', v) # runs \<Rightarrow> if k = k' then (k, t @ v) # runs else (k, t) # (k', v) # runs)"

text \<open>
  Modelled from the spec: the change object of the library for one run, with the flag
  \<open>added\<close> for an insert-run and \<open>removed\<close> for a delete-run.
\<close>

definition changeOf :: "EditOp \<times> string \<Rightarrow> Change" where
  "changeOf r = \<lparr>Change.value = snd r, added = (fst r = Insert), removed = (fst r = Delete)\<rparr>"

text \<open>The chunk type that \<open>calculateDiffs\<close> gives to a run of each kind.\<close>

definition typeOfOp :: "EditOp \<Rightarrow> ChangeType" where
  "typeOfOp k = (case k of Keep \<Rightarrow> Unchanged | Insert \<Rightarrow> Added | Delete \<Rightarrow> Removed)"

text \<open>
  The order that the specification requires of an edit script, as a test on its sequence
  of operations: somewhere an insertion is immediately followed by a deletion.
\<close>

fun insertThenDelete :: "EditOp list \<Rightarrow> bool" where
  "insertThenDelete (a # b # ks) \<longleftrightarrow> (a = Insert \<and> b = Delete) \<or> insertThenDelete (b # ks)"
| "insertThenDelete ks \<longleftrightarrow> False"

text \<open>
  Modelled from the spec: \<open>diffWords\<close> of the third-party diff library (not under src/),
  the composition of the three steps.
\<close>

definition diffWords :: "string \<Rightarrow> string \<Rightarrow> Change list" where
  "diffWords original revised =
     map changeOf (coalesce (editScript (tokenize original) (tokenize revised)))"

section \<open>utils/diffUtils.ts\<close>

text \<open>
  \<^verbatim>\<open>const generateId = () => Math.random().toString(36).substr(2, 9);\<close>
  The random draw is an input of the model: \<open>r\<close> is the base-36 rendering
  \<^verbatim>\<open>Math.random().toString(36)\<close> of the draw (\<open>''0.i''\<close> for the draw 0.5), and
  \<^verbatim>\<open>substr(2, 9)\<close> keeps at most nine code units from position two. Any string may stand
  for a rendering here; the closed theorems about identifiers use renderings of doubles.
\<close>

definition generateId :: "string \<Rightarrow> string" where
  "generateId r = take 9 (drop 2 r)"

text \<open>
  The body of \<open>calculateDiffs\<close> after the library call:
  \<^verbatim>\<open>rawDiffs.map((part, index) => { ... })\<close>. The callback sets the type to \<open>unchanged\<close>,
  overwrites it with \<open>added\<close> when \<open>part.added\<close> holds, and then with \<open>removed\<close> when
  \<open>part.removed\<close> holds. The callback runs once per element in index order, so the chunk
  at index \<open>i\<close> gets the \<open>i\<close>-th draw \<open>rnd i\<close> of this call.
\<close>

definition chunkOfPart :: "(nat \<Rightarrow> string) \<Rightarrow> Change \<Rightarrow> nat \<Rightarrow> DiffChunk" where
  "chunkOfPart rnd part index =
     (let type0 = Unchanged;
          type1 = (if added part then Added else type0);
          type2 = (if removed part then Removed else type1)
      in \<lparr>id' = generateId (rnd index), value = Change.value part, type = type2,
          originalIndex = index\<rparr>)"

definition mapRawDiffs :: "(nat \<Rightarrow> string) \<Rightarrow> Change list \<Rightarrow> DiffChunk list" where
  "mapRawDiffs rnd rawDiffs =
     map (\<lambda>(part, index). chunkOfPart rnd part index) (zip rawDiffs [0..<length rawDiffs])"

definition calculateDiffs :: "(nat \<Rightarrow> string) \<Rightarrow> string \<Rightarrow> string \<Rightarrow> DiffChunk list" where
  "calculateDiffs rnd original revised = mapRawDiffs rnd (diffWords original revised)"

text \<open>
  \<open>getCleanText\<close>: \<^verbatim>\<open>chunks.map(chunk => ...).join('')\<close>; a removed chunk contributes the
  empty string.
\<close>

definition getCleanText :: "DiffChunk list \<Rightarrow> string" where
  "getCleanText chunks =
     concat (map (\<lambda>chunk.
        if type chunk = Unchanged then DiffChunk.value chunk
        else if type chunk = Added then DiffChunk.value chunk
        else []) chunks)"

text \<open>
  \<^verbatim>\<open>s.replace(/c/g, r)\<close> for a pattern that is one literal character and a replacement
  without \<^verbatim>\<open>$\<close>: every occurrence of the character is replaced, left to right.
\<close>

definition replaceAll :: "char \<Rightarrow> string \<Rightarrow> string \<Rightarrow> string" where
  "replaceAll c r s = concat (map (\<lambda>x. if x = c then r else [x]) s)"

definition escapeValue :: "string \<Rightarrow> string" where
  "escapeValue v =
     replaceAll (CHR 0x0A) ''<br>''
       (replaceAll (CHR ''>'') ''&gt;''
         (replaceAll (CHR ''<'') ''&lt;''
           (replaceAll (CHR ''&'') ''&amp;'' v)))"

definition addedOpen :: string where
  "addedOpen = ''<span style='' @ [CHR 0x22] @
     ''background-color: #dcfce7; color: #166534; text-decoration: underline;'' @
     [CHR 0x22] @ ''>''"

definition removedOpen :: string where
  "removedOpen = ''<span style='' @ [CHR 0x22] @
     ''background-color: #fee2e2; color: #991b1b; text-decoration: line-through;'' @
     [CHR 0x22] @ ''>''"

text \<open>The callback of \<open>getRedlineHtml\<close>, with its three tests in the source's order.\<close>

definition chunkHtml :: "DiffChunk \<Rightarrow> string" where
  "chunkHtml chunk =
     (let text = escapeValue (DiffChunk.value chunk) in
      if type chunk = Unchanged then ''<span>'' @ text @ ''</span>''
      else if type chunk = Added then addedOpen @ text @ ''</span>''
      else if type chunk = Removed then removedOpen @ text @ ''</span>''
      else [])"

definition getRedlineHtml :: "DiffChunk list \<Rightarrow> string" where
  "getRedlineHtml chunks = concat (map chunkHtml chunks)"

section \<open>services/geminiService.ts\<close>

text \<open>
  \<^verbatim>\<open>String.prototype.trim\<close>: white space is removed from both ends.
\<close>

definition trim :: "string \<Rightarrow> string" where
  "trim s = rev (dropWhile isSpace (rev (dropWhile isSpace s)))"

text \<open>The template literal that \<open>improveText\<close> sends as \<^verbatim>\<open>contents\<close>.\<close>

definition revisionPrompt :: "string \<Rightarrow> string" where
  "revisionPrompt text =
     ''You are an expert editor. Please revise the following text to improve clarity, grammar, and flow while maintaining the original meaning. ''
     @ [CHR 0x0A] @ ''      ''
     @ [CHR 0x0A] @ ''      Return ONLY the revised text. Do not add any conversational filler or markdown formatting blocks (like ```).''
     @ [CHR 0x0A] @ ''      ''
     @ [CHR 0x0A] @ ''      Text to revise:''
     @ [CHR 0x0A] @ ''      '' @ text"

text \<open>
  What the remote call throws (a rejected promise of \<^verbatim>\<open>generateContent\<close>), with its message.
\<close>

datatype error = ServiceError string

text \<open>
  The effects of \<open>improveText\<close> outside its result: the requests sent to the remote service
  and the errors written with \<^verbatim>\<open>console.error\<close>.
\<close>

record World =
  remoteCalls :: "string list"
  consoleErrors :: "error list"

text \<open>
  The remote service \<^verbatim>\<open>ai.models.generateContent\<close> (model and temperature are constants of
  the source): for a prompt it either throws, \<open>Inl\<close>, or returns a response whose \<open>text\<close> is
  a string or \<^verbatim>\<open>undefined\<close>, \<open>Inr\<close>.
\<close>

type_synonym remote = "string \<Rightarrow> error + string option"

text \<open>
  \<open>improveText\<close>. The guard \<^verbatim>\<open>!text || text.trim().length === 0\<close> returns the empty string
  before anything is sent. Otherwise the request is sent; \<^verbatim>\<open>response.text?.trim() || text\<close>
  yields the trimmed response text, or the input when the response text is missing or
  trims to the empty string. The \<^verbatim>\<open>catch\<close> block logs the error and throws it again.
\<close>

definition improveText :: "remote \<Rightarrow> string \<Rightarrow> World \<Rightarrow> (error + string) \<times> World" where
  "improveText generateContent text w =
     (if text = [] \<or> length (trim text) = 0 then (Inr [], w)
      else
        (let w1 = w\<lparr>remoteCalls := remoteCalls w @ [revisionPrompt text]\<rparr> in
         case generateContent (revisionPrompt text) of
           Inr responseText \<Rightarrow>
             (case map_option trim responseText of
                None \<Rightarrow> (Inr text, w1)
              | Some t \<Rightarrow> (if t = [] then (Inr text, w1) else (Inr t, w1)))
         | Inl e \<Rightarrow> (Inl e, w1\<lparr>consoleErrors := consoleErrors w1 @ [e]\<rparr>)))"


section \<open>What the markup has to satisfy\<close>

text \<open>
  The opening tag that \<open>chunkHtml\<close> writes for a chunk of each type (the three branches
  of the source, read as a table).
\<close>

definition openTag :: "ChangeType \<Rightarrow> string" where
  "openTag t = (case t of Unchanged \<Rightarrow> ''<span>'' | Added \<Rightarrow> addedOpen | Removed \<Rightarrow> removedOpen)"

text \<open>
  The escaped form of one character as the specification words it: \<open>&\<close>, \<open><\<close> and \<open>>\<close>
  are escaped, a line feed becomes the line-break marker, anything else stays. The source
  instead runs four global replacements one after the other (\<open>escapeValue\<close>).
\<close>

definition escapeChar :: "char \<Rightarrow> string" where
  "escapeChar c =
     (if c = CHR ''&'' then ''&amp;''
      else if c = CHR ''<'' then ''&lt;''
      else if c = CHR ''>'' then ''&gt;''
      else if c = CHR 0x0A then ''<br>''
      else [c])"

text \<open>
  A text in which no \<open>&\<close>, \<open><\<close> or \<open>>\<close> stands unescaped and no raw line feed occurs: every
  \<open>&\<close> opens one of the three entities, every \<open><\<close> opens the marker \<open><br>\<close>, and \<open>>\<close>
  occurs only as the end of that marker.
\<close>

fun wellEscaped :: "string \<Rightarrow> bool" where
  "wellEscaped [] \<longleftrightarrow> True"
| "wellEscaped (c # cs) \<longleftrightarrow>
     (if c = CHR ''&'' then
        (prefix ''amp;'' cs \<or> prefix ''lt;'' cs \<or> prefix ''gt;'' cs) \<and> wellEscaped cs
      else if c = CHR ''<'' then prefix ''br>'' cs \<and> wellEscaped (drop 3 cs)
      else if c = CHR ''>'' \<or> c = CHR 0x0A then False
      else wellEscaped cs)"

text \<open>The number of positions of a text at which the pattern \<open>p\<close> occurs.\<close>

fun countOcc :: "string \<Rightarrow> string \<Rightarrow> nat" where
  "countOcc p [] = 0"
| "countOcc p (c # cs) = (if prefix p (c # cs) then 1 else 0) + countOcc p cs"


section \<open>Properties of the chunk mapping and of the projections\<close>

subsection \<open>The word diff\<close>

lemma tokenize_Cons_neq_Nil: "tokenize (c # cs) \<noteq> []"
  by (cases cs) (auto split: list.splits)

lemma tokenize_Nil_iff: "tokenize s = [] \<longleftrightarrow> s = []"
  by (cases s) (simp_all add: tokenize_Cons_neq_Nil)

lemma concat_tokenize: "concat (tokenize s) = s"
proof (induction s rule: tokenize.induct)
  case (3 c d cs)
  show ?case
  proof (cases "isSpace c \<and> \<not> isSpace d")
    case True
    with 3 show ?thesis by simp
  next
    case False
    with 3 have "concat (tokenize (d # cs)) = d # cs" by blast
    with False show ?thesis
      by (cases "tokenize (d # cs)") (simp_all del: tokenize.simps(3) add: tokenize.simps(3) [of c d cs])
  qed
qed simp_all

lemma tokens_nonempty: "[] \<notin> set (tokenize s)"
proof (induction s rule: tokenize.induct)
  case (3 c d cs)
  show ?case
  proof (cases "isSpace c \<and> \<not> isSpace d")
    case True
    with 3 show ?thesis by simp
  next
    case False
    with 3 have "[] \<notin> set (tokenize (d # cs))" by blast
    with False show ?thesis
      by (cases "tokenize (d # cs)") (simp_all del: tokenize.simps(3) add: tokenize.simps(3) [of c d cs])
  qed
qed simp_all

lemma editScript_old:
  "map snd (filter (\<lambda>r. fst r \<noteq> Insert) (editScript xs ys)) = xs"
  by (induction xs ys rule: editScript.induct) (simp_all add: filter_map comp_def)

lemma editScript_new:
  "map snd (filter (\<lambda>r. fst r \<noteq> Delete) (editScript xs ys)) = ys"
  by (induction xs ys rule: editScript.induct) (simp_all add: filter_map comp_def)

lemma coalesce_concat:
  "concat (map snd (filter (\<lambda>r. fst r \<noteq> k) (coalesce ops)))
   = concat (map snd (filter (\<lambda>r. fst r \<noteq> k) ops))"
proof (induction ops rule: coalesce.induct)
  case 1
  show ?case by simp
next
  case (2 j t rest)
  show ?case
  proof (cases "coalesce rest")
    case Nil
    with 2 show ?thesis by simp
  next
    case (Cons r runs)
    obtain k' v where r: "r = (k', v)" by (cases r)
    from 2 Cons r show ?thesis by (auto split: if_splits)
  qed
qed

lemma coalesce_Cons_neq_Nil: "coalesce (p # rest) \<noteq> []"
  by (cases p) (auto split: list.splits)

lemma coalesce_hd: "coalesce ((k, t) # rest) = r # runs \<Longrightarrow> fst r = k"
  by (auto split: list.splits if_splits)

lemma map_fst_coalesce: "map fst (coalesce ops) = remdups_adj (map fst ops)"
proof (induction ops)
  case Nil
  show ?case by simp
next
  case (Cons p rest)
  obtain k t where p: "p = (k, t)" by (cases p)
  show ?case
  proof (cases rest)
    case Nil
    with p show ?thesis by simp
  next
    case rest: (Cons q rest')
    obtain k' t' where q: "q = (k', t')" by (cases q)
    obtain r runs where c: "coalesce rest = r # runs"
      using coalesce_Cons_neq_Nil [of q rest'] rest by (cases "coalesce rest") auto
    have hd: "fst r = k'"
      using coalesce_hd [of k' t' rest' r runs] c rest q by simp
    from Cons.IH c have IH: "fst r # map fst runs = remdups_adj (map fst rest)" by simp
    obtain v where r: "r = (k', v)" using hd by (cases r) auto
    show ?thesis
      using IH c r by (simp add: p rest q)
  qed
qed


subsection \<open>The chunk mapping\<close>

lemma length_mapRawDiffs: "length (mapRawDiffs rnd rawDiffs) = length rawDiffs"
  by (simp add: mapRawDiffs_def)

lemma nth_mapRawDiffs:
  "i < length rawDiffs \<Longrightarrow> mapRawDiffs rnd rawDiffs ! i = chunkOfPart rnd (rawDiffs ! i) i"
  by (simp add: mapRawDiffs_def)

lemma originalIndex_chunkOfPart: "originalIndex (chunkOfPart rnd part index) = index"
  by (simp add: chunkOfPart_def)

lemma map_originalIndex_mapRawDiffs:
  "map originalIndex (mapRawDiffs rnd rawDiffs) = [0..<length rawDiffs]"
  by (rule nth_equalityI) (simp_all add: length_mapRawDiffs nth_mapRawDiffs originalIndex_chunkOfPart)

text \<open>
  Claim C7. Read in sequence order, the \<open>originalIndex\<close> fields of the chunks that
  \<open>calculateDiffs\<close> returns are exactly 0, 1, ..., n - 1, where n is the number of chunks.
  This holds for whatever list of change objects the library returns, hence also for the
  result of \<open>calculateDiffs\<close> itself.
\<close>

theorem originalIndex_contiguous:
  "map originalIndex (mapRawDiffs rnd rawDiffs) = [0..<length (mapRawDiffs rnd rawDiffs)] \<and>
   map originalIndex (calculateDiffs rnd original revised)
     = [0..<length (calculateDiffs rnd original revised)]"
  by (simp add: calculateDiffs_def map_originalIndex_mapRawDiffs length_mapRawDiffs)

lemma getCleanText_cong:
  "map (\<lambda>c. (DiffChunk.value c, type c)) cs = map (\<lambda>c. (DiffChunk.value c, type c)) ds
   \<Longrightarrow> getCleanText cs = getCleanText ds"
proof (induction cs arbitrary: ds)
  case Nil
  then show ?case by simp
next
  case (Cons c cs)
  then obtain d ds' where ds: "ds = d # ds'" by (cases ds) auto
  with Cons.prems have hd: "DiffChunk.value c = DiffChunk.value d" "type c = type d"
    and tl: "map (\<lambda>c. (DiffChunk.value c, type c)) cs = map (\<lambda>c. (DiffChunk.value c, type c)) ds'"
    by simp_all
  from Cons.IH [OF tl] hd show ?case
    by (simp add: ds getCleanText_def)
qed

lemma chunkHtml_by_type:
  "chunkHtml c =
     (case type c of Unchanged \<Rightarrow> ''<span>'' | Added \<Rightarrow> addedOpen | Removed \<Rightarrow> removedOpen)
       @ escapeValue (DiffChunk.value c) @ ''</span>''"
  by (cases "type c") (simp_all add: chunkHtml_def)

lemma chunkHtml_cong:
  "DiffChunk.value c = DiffChunk.value d \<Longrightarrow> type c = type d \<Longrightarrow> chunkHtml c = chunkHtml d"
  by (simp add: chunkHtml_by_type)

lemma getRedlineHtml_cong:
  "map (\<lambda>c. (DiffChunk.value c, type c)) cs = map (\<lambda>c. (DiffChunk.value c, type c)) ds
   \<Longrightarrow> getRedlineHtml cs = getRedlineHtml ds"
proof (induction cs arbitrary: ds)
  case Nil
  then show ?case by simp
next
  case (Cons c cs)
  then obtain d ds' where ds: "ds = d # ds'" by (cases ds) auto
  with Cons.prems have hd: "DiffChunk.value c = DiffChunk.value d" "type c = type d"
    and tl: "map (\<lambda>c. (DiffChunk.value c, type c)) cs = map (\<lambda>c. (DiffChunk.value c, type c)) ds'"
    by simp_all
  from Cons.IH [OF tl] chunkHtml_cong [OF hd] show ?case
    by (simp add: ds getRedlineHtml_def)
qed

text \<open>
  Claim C10. \<open>getCleanText\<close> and \<open>getRedlineHtml\<close> read only the \<open>value\<close> and the \<open>type\<close>
  of each chunk: two chunk sequences of equal length that agree elementwise on \<open>value\<close>
  and \<open>type\<close> yield the same clean text and the same markup, whatever their \<open>id\<close> and
  \<open>originalIndex\<close> fields are.
\<close>

theorem projections_read_value_and_type_only:
  assumes "length cs = length ds"
    and "\<forall>i<length cs. DiffChunk.value (cs ! i) = DiffChunk.value (ds ! i) \<and> type (cs ! i) = type (ds ! i)"
  shows "getCleanText cs = getCleanText ds \<and> getRedlineHtml cs = getRedlineHtml ds"
proof -
  have "map (\<lambda>c. (DiffChunk.value c, type c)) cs = map (\<lambda>c. (DiffChunk.value c, type c)) ds"
    using assms by (intro nth_equalityI) simp_all
  then show ?thesis
    using getCleanText_cong [of cs ds] getRedlineHtml_cong [of cs ds] by blast
qed

theorem projections_read_value_and_type_only_witness:
  "getCleanText [\<lparr>id' = ''k3x'', value = ''a<b'', type = Added, originalIndex = 0\<rparr>,
                 \<lparr>id' = ''q'', value = ''old'', type = Removed, originalIndex = 1\<rparr>]
   = getCleanText [\<lparr>id' = ''zz'', value = ''a<b'', type = Added, originalIndex = 7\<rparr>,
                   \<lparr>id' = ''zz'', value = ''old'', type = Removed, originalIndex = 7\<rparr>]
   \<and> getRedlineHtml [\<lparr>id' = ''k3x'', value = ''a<b'', type = Added, originalIndex = 0\<rparr>,
                     \<lparr>id' = ''q'', value = ''old'', type = Removed, originalIndex = 1\<rparr>]
   = getRedlineHtml [\<lparr>id' = ''zz'', value = ''a<b'', type = Added, originalIndex = 7\<rparr>,
                     \<lparr>id' = ''zz'', value = ''old'', type = Removed, originalIndex = 7\<rparr>]"
  by (rule projections_read_value_and_type_only) (simp_all add: less_Suc_eq)




subsection \<open>Reconstruction and identity\<close>

lemma type_chunkOfPart:
  "type (chunkOfPart rnd part index)
   = (if removed part then Removed else if added part then Added else Unchanged)"
  by (simp add: chunkOfPart_def)

lemma value_chunkOfPart: "DiffChunk.value (chunkOfPart rnd part index) = Change.value part"
  by (simp add: chunkOfPart_def)

lemma type_value_mapRawDiffs:
  "map (\<lambda>c. (type c, DiffChunk.value c)) (mapRawDiffs rnd rawDiffs)
   = map (\<lambda>p. (if removed p then Removed else if added p then Added else Unchanged,
                 Change.value p)) rawDiffs"
  by (rule nth_equalityI)
     (simp_all add: length_mapRawDiffs nth_mapRawDiffs type_chunkOfPart value_chunkOfPart)

lemma type_value_changeOf:
  "(if removed (changeOf r) then Removed else if added (changeOf r) then Added else Unchanged,
    Change.value (changeOf r)) = (typeOfOp (fst r), snd r)"
  by (cases "fst r") (simp_all add: changeOf_def typeOfOp_def)

lemma type_value_calculateDiffs:
  "map (\<lambda>c. (type c, DiffChunk.value c)) (calculateDiffs rnd original revised)
   = map (\<lambda>r. (typeOfOp (fst r), snd r))
       (coalesce (editScript (tokenize original) (tokenize revised)))"
  by (simp add: calculateDiffs_def diffWords_def type_value_mapRawDiffs comp_def
        type_value_changeOf)

lemma concat_values_via_pairs:
  "concat (map DiffChunk.value (filter (\<lambda>c. P (type c)) cs))
   = concat (map snd (filter (\<lambda>p. P (fst p)) (map (\<lambda>c. (type c, DiffChunk.value c)) cs)))"
  by (induction cs) simp_all

lemma getCleanText_filter:
  "getCleanText cs = concat (map DiffChunk.value (filter (\<lambda>c. type c \<noteq> Removed) cs))"
proof (induction cs)
  case Nil
  show ?case by (simp add: getCleanText_def)
next
  case (Cons c cs)
  then show ?case by (cases "type c") (simp_all add: getCleanText_def)
qed

lemma keep_new_values:
  "concat (map DiffChunk.value
     (filter (\<lambda>c. type c \<noteq> Removed) (calculateDiffs rnd original revised))) = revised"
proof -
  have "concat (map DiffChunk.value
     (filter (\<lambda>c. type c \<noteq> Removed) (calculateDiffs rnd original revised)))
    = concat (map snd (filter (\<lambda>r. fst r \<noteq> Delete)
        (coalesce (editScript (tokenize original) (tokenize revised)))))"
    unfolding concat_values_via_pairs [where P = "\<lambda>t. t \<noteq> Removed"] type_value_calculateDiffs
    by (simp add: filter_map comp_def typeOfOp_def split: EditOp.split)
  also have "\<dots> = concat (tokenize revised)"
    by (simp add: coalesce_concat editScript_new)
  finally show ?thesis by (simp add: concat_tokenize)
qed


lemma keep_old_values:
  "concat (map DiffChunk.value
     (filter (\<lambda>c. type c \<noteq> Added) (calculateDiffs rnd original revised))) = original"
proof -
  have "concat (map DiffChunk.value
     (filter (\<lambda>c. type c \<noteq> Added) (calculateDiffs rnd original revised)))
    = concat (map snd (filter (\<lambda>r. fst r \<noteq> Insert)
        (coalesce (editScript (tokenize original) (tokenize revised)))))"
    unfolding concat_values_via_pairs [where P = "\<lambda>t. t \<noteq> Added"] type_value_calculateDiffs
    by (simp add: filter_map comp_def typeOfOp_def split: EditOp.split)
  also have "\<dots> = concat (tokenize original)"
    by (simp add: coalesce_concat editScript_old)
  finally show ?thesis by (simp add: concat_tokenize)
qed

lemma not_Removed_iff: "t \<noteq> Removed \<longleftrightarrow> t = Unchanged \<or> t = Added"
  by (cases t) simp_all

lemma not_Added_iff: "t \<noteq> Added \<longleftrightarrow> t = Unchanged \<or> t = Removed"
  by (cases t) simp_all

lemma kept_values_mapRawDiffs:
  "concat (map DiffChunk.value (filter (\<lambda>c. type c \<noteq> Removed) (mapRawDiffs rnd rawDiffs)))
   = concat (map Change.value (filter (\<lambda>p. \<not> removed p) rawDiffs))"
  unfolding concat_values_via_pairs [where P = "\<lambda>t. t \<noteq> Removed"] type_value_mapRawDiffs
  by (simp add: filter_map comp_def)

lemma old_values_mapRawDiffs:
  "concat (map DiffChunk.value (filter (\<lambda>c. type c \<noteq> Added) (mapRawDiffs rnd rawDiffs)))
   = concat (map Change.value (filter (\<lambda>p. \<not> (added p \<and> \<not> removed p)) rawDiffs))"
proof -
  have eq: "(\<lambda>p. (if removed p then Removed else if added p then Added else Unchanged) \<noteq> Added)
        = (\<lambda>p. \<not> (added p \<and> \<not> removed p))"
    by (rule ext) simp
  have "concat (map DiffChunk.value (filter (\<lambda>c. type c \<noteq> Added) (mapRawDiffs rnd rawDiffs)))
    = concat (map Change.value
        (filter (\<lambda>p. (if removed p then Removed else if added p then Added else Unchanged) \<noteq> Added)
           rawDiffs))"
    unfolding concat_values_via_pairs [where P = "\<lambda>t. t \<noteq> Added"] type_value_mapRawDiffs
    by (simp only: filter_map comp_def fst_conv snd_conv map_map)
  then show ?thesis by (simp only: eq)
qed

text \<open>
  Claim C1. For all strings A and B, with C = \<open>calculateDiffs(A, B)\<close>: the values of the
  chunks of type \<open>unchanged\<close> or \<open>added\<close>, concatenated in sequence order, are B, which is
  also \<open>getCleanText(C)\<close>; the values of the chunks of type \<open>unchanged\<close> or \<open>removed\<close>,
  concatenated in sequence order, are A. The first two equations say what the mapping of
  \<open>calculateDiffs\<close> contributes, for any list of change objects: the clean text is the
  concatenation of the parts that are not removed, and the chunks of type \<open>unchanged\<close> or
  \<open>removed\<close> hold the parts that are not pure additions.
\<close>

theorem reconstruction_laws:
  "getCleanText (mapRawDiffs rnd rawDiffs)
     = concat (map Change.value (filter (\<lambda>p. \<not> removed p) rawDiffs))
   \<and> concat (map DiffChunk.value
       (filter (\<lambda>c. type c = Unchanged \<or> type c = Removed) (mapRawDiffs rnd rawDiffs)))
     = concat (map Change.value (filter (\<lambda>p. \<not> (added p \<and> \<not> removed p)) rawDiffs))
   \<and> concat (map DiffChunk.value
     (filter (\<lambda>c. type c = Unchanged \<or> type c = Added) (calculateDiffs rnd A B))) = B
   \<and> getCleanText (calculateDiffs rnd A B) = B
   \<and> concat (map DiffChunk.value
     (filter (\<lambda>c. type c = Unchanged \<or> type c = Removed) (calculateDiffs rnd A B))) = A"
  using keep_new_values [of rnd A B] keep_old_values [of rnd A B]
    kept_values_mapRawDiffs [of rnd rawDiffs] old_values_mapRawDiffs [of rnd rawDiffs]
  by (simp add: getCleanText_filter not_Removed_iff not_Added_iff)

lemma editScript_same: "editScript xs xs = map (Pair Keep) xs"
  by (induction xs) simp_all

lemma coalesce_one_kind:
  "coalesce (map (Pair k) ts) = (if ts = [] then [] else [(k, concat ts)])"
  by (induction ts) (auto split: list.splits)

lemma calculateDiffs_same:
  "calculateDiffs rnd A A =
     (if A = [] then []
      else [\<lparr>id' = generateId (rnd 0), value = A, type = Unchanged, originalIndex = 0\<rparr>])"
  by (simp add: calculateDiffs_def diffWords_def editScript_same coalesce_one_kind
        tokenize_Nil_iff concat_tokenize mapRawDiffs_def changeOf_def chunkOfPart_def)


subsection \<open>Order of removed and added chunks\<close>

lemma lcsLength_Nil2: "lcsLength xs [] = 0"
  by (cases xs) simp_all

lemma lcsLength_le_length: "lcsLength xs ys \<le> length xs \<and> lcsLength xs ys \<le> length ys"
  by (induction xs ys rule: lcsLength.induct) auto

lemma lcsLength_bounds:
  "lcsLength xs ys \<le> lcsLength (x # xs) ys \<and> lcsLength (x # xs) ys \<le> Suc (lcsLength xs ys)
   \<and> lcsLength xs ys \<le> lcsLength xs (y # ys) \<and> lcsLength xs (y # ys) \<le> Suc (lcsLength xs ys)"
proof (induction "length xs + length ys" arbitrary: xs ys x y rule: less_induct)
  case less
  show ?case
  proof (cases xs)
    case Nil
    then show ?thesis
      using lcsLength_le_length [of "[x]" ys] lcsLength_le_length [of "[x]" "y # ys"]
      by simp
  next
    case xs: (Cons a as)
    show ?thesis
    proof (cases ys)
      case Nil
      then show ?thesis
        using lcsLength_le_length [of xs "[y]"] lcsLength_le_length [of "x # xs" "[y]"]
        by (simp add: lcsLength_Nil2)
    next
      case ys: (Cons b bs)
      have 1: "lcsLength as bs \<le> lcsLength (u # as) bs \<and> lcsLength (u # as) bs \<le> Suc (lcsLength as bs)
        \<and> lcsLength as bs \<le> lcsLength as (v # bs) \<and> lcsLength as (v # bs) \<le> Suc (lcsLength as bs)" for u v
        using less [of as bs u v] by (simp add: xs ys)
      have 2: "lcsLength as ys \<le> lcsLength (u # as) ys \<and> lcsLength (u # as) ys \<le> Suc (lcsLength as ys)
        \<and> lcsLength as ys \<le> lcsLength as (v # ys) \<and> lcsLength as (v # ys) \<le> Suc (lcsLength as ys)" for u v
        using less [of as ys u v] by (simp add: xs)
      have 3: "lcsLength xs bs \<le> lcsLength (u # xs) bs \<and> lcsLength (u # xs) bs \<le> Suc (lcsLength xs bs)
        \<and> lcsLength xs bs \<le> lcsLength xs (v # bs) \<and> lcsLength xs (v # bs) \<le> Suc (lcsLength xs bs)" for u v
        using less [of xs bs u v] by (simp add: ys)
      show ?thesis
        using 1 [of a b] 1 [of x b] 1 [of a y] 2 [of x y]  2 [of a b] 3 [of x y] 3 [of a b]
        unfolding xs ys by (auto simp: max_def)
    qed
  qed
qed


lemma lcsLength_mono2: "lcsLength xs ys \<le> lcsLength xs (y # ys)"
  using lcsLength_bounds [of xs ys undefined y] by simp

lemma editScript_after_Insert:
  assumes "lcsLength xs (y # ys) < lcsLength (x # xs) ys"
  shows "\<exists>k t rest. editScript (x # xs) ys = (k, t) # rest \<and> k \<noteq> Delete"
proof (cases ys)
  case Nil
  with assms show ?thesis by simp
next
  case (Cons b bs)
  show ?thesis
  proof (cases "x = b")
    case True
    with Cons show ?thesis by simp
  next
    case False
    have "lcsLength xs (b # bs) \<le> lcsLength xs (y # b # bs)"
      by (rule lcsLength_mono2)
    with assms False Cons have "lcsLength xs (b # bs) < lcsLength (x # xs) bs"
      by (simp add: max_def split: if_splits)
    with False Cons show ?thesis by simp
  qed
qed

lemma insertThenDelete_Cons:
  "insertThenDelete (a # ks) \<longleftrightarrow>
     (a = Insert \<and> (\<exists>ks'. ks = Delete # ks')) \<or> insertThenDelete ks"
  by (cases ks) auto

lemma insertThenDelete_replicate: "\<not> insertThenDelete (map (\<lambda>x. k) ts)"
  by (induction ts) (auto simp: insertThenDelete_Cons)

lemma editScript_order: "\<not> insertThenDelete (map fst (editScript xs ys))"
proof (induction xs ys rule: editScript.induct)
  case (1 ys)
  show ?case using insertThenDelete_replicate [of Insert ys] by (simp add: comp_def)
next
  case (2 x xs)
  show ?case using insertThenDelete_replicate [of Delete "x # xs"] by (simp add: comp_def)
next
  case (3 x xs y ys)
  show ?case
  proof (cases "x = y")
    case True
    with 3 show ?thesis by (simp add: insertThenDelete_Cons)
  next
    case neq: False
    show ?thesis
    proof (cases "lcsLength (x # xs) ys \<le> lcsLength xs (y # ys)")
      case True
      with 3 neq show ?thesis by (simp add: insertThenDelete_Cons)
    next
      case False
      then obtain k t rest where hd: "editScript (x # xs) ys = (k, t) # rest" "k \<noteq> Delete"
        using editScript_after_Insert [of xs y ys x] by auto
      from 3 neq False have "\<not> insertThenDelete (map fst (editScript (x # xs) ys))" by simp
      then have "\<not> insertThenDelete (Insert # map fst (editScript (x # xs) ys))"
        using hd by (simp add: insertThenDelete_Cons)
      moreover have "editScript (x # xs) (y # ys) = (Insert, y) # editScript (x # xs) ys"
        using neq False by simp
      ultimately show ?thesis by simp
    qed
  qed
qed

lemma remdups_adj_order: "\<not> insertThenDelete ks \<Longrightarrow> \<not> insertThenDelete (remdups_adj ks)"
proof (induction ks rule: remdups_adj.induct)
  case (3 a b ks)
  then show ?case
    by (cases "a = b") (auto simp: insertThenDelete_Cons remdups_adj_Cons split: list.splits)
qed simp_all

lemma insertThenDelete_nth:
  "\<not> insertThenDelete ks \<Longrightarrow> Suc i < length ks \<Longrightarrow> ks ! i = Insert \<Longrightarrow> ks ! Suc i \<noteq> Delete"
proof (induction ks arbitrary: i rule: insertThenDelete.induct)
  case (1 a b ks)
  then show ?case by (cases i) auto
qed simp_all


lemma lcsLength_disjoint: "set xs \<inter> set ys = {} \<Longrightarrow> lcsLength xs ys = 0"
  by (induction xs ys rule: lcsLength.induct) auto

lemma editScript_disjoint:
  "set xs \<inter> set ys = {} \<Longrightarrow> editScript xs ys = map (Pair Delete) xs @ map (Pair Insert) ys"
proof (induction xs arbitrary: ys)
  case Nil
  show ?case by simp
next
  case (Cons x xs)
  show ?case
  proof (cases ys)
    case Nil
    then show ?thesis by simp
  next
    case ys: (Cons b bs)
    from Cons.prems have d: "set xs \<inter> set ys = {}" and neq: "x \<noteq> b"
      by (auto simp: ys)
    have "set (x # xs) \<inter> set bs = {}" using Cons.prems by (auto simp: ys)
    then have "lcsLength (x # xs) bs = 0" by (rule lcsLength_disjoint)
    with neq Cons.IH [OF d] show ?thesis by (simp add: ys)
  qed
qed

lemma coalesce_run_then:
  assumes "ts \<noteq> []" and "\<And>r runs. coalesce rest = r # runs \<Longrightarrow> fst r \<noteq> k"
  shows "coalesce (map (Pair k) ts @ rest) = (k, concat ts) # coalesce rest"
  using assms(1)
proof (induction ts)
  case Nil
  then show ?case by simp
next
  case (Cons t ts)
  show ?case
  proof (cases "ts = []")
    case True
    then show ?thesis using assms(2) by (auto split: list.splits)
  next
    case False
    with Cons.IH show ?thesis by simp
  qed
qed

lemma coalesce_delete_insert:
  "xs \<noteq> [] \<Longrightarrow> ys \<noteq> [] \<Longrightarrow>
   coalesce (map (Pair Delete) xs @ map (Pair Insert) ys) = [(Delete, concat xs), (Insert, concat ys)]"
  by (subst coalesce_run_then) (auto simp: coalesce_one_kind)

lemma disjoint_chunks:
  assumes "A \<noteq> []" "B \<noteq> []" "set (tokenize A) \<inter> set (tokenize B) = {}"
  shows "map (\<lambda>c. (type c, DiffChunk.value c)) (calculateDiffs rnd A B) = [(Removed, A), (Added, B)]"
  using assms
  by (simp add: type_value_calculateDiffs editScript_disjoint coalesce_delete_insert
        tokenize_Nil_iff concat_tokenize typeOfOp_def)

lemma map_type_calculateDiffs:
  "map type (calculateDiffs rnd A B)
   = map typeOfOp (remdups_adj (map fst (editScript (tokenize A) (tokenize B))))"
proof -
  have "map type (calculateDiffs rnd A B)
        = map fst (map (\<lambda>c. (type c, DiffChunk.value c)) (calculateDiffs rnd A B))"
    by (simp add: comp_def)
  also have "\<dots> = map typeOfOp (map fst (coalesce (editScript (tokenize A) (tokenize B))))"
    unfolding type_value_calculateDiffs by (simp add: comp_def)
  finally show ?thesis by (simp add: map_fst_coalesce)
qed

lemma typeOfOp_Added: "typeOfOp k = Added \<longleftrightarrow> k = Insert"
  by (cases k) (simp_all add: typeOfOp_def)

lemma typeOfOp_Removed: "typeOfOp k = Removed \<longleftrightarrow> k = Delete"
  by (cases k) (simp_all add: typeOfOp_def)

lemma inj_typeOfOp: "typeOfOp j = typeOfOp k \<longleftrightarrow> j = k"
  by (cases j; cases k) (simp_all add: typeOfOp_def)

lemma removed_before_added:
  assumes "Suc i < length (calculateDiffs rnd A B)"
  shows "type (calculateDiffs rnd A B ! i) \<noteq> type (calculateDiffs rnd A B ! Suc i)
    \<and> \<not> (type (calculateDiffs rnd A B ! i) = Added \<and> type (calculateDiffs rnd A B ! Suc i) = Removed)"
proof -
  let ?ks = "remdups_adj (map fst (editScript (tokenize A) (tokenize B)))"
  have len: "length ?ks = length (calculateDiffs rnd A B)"
    using map_type_calculateDiffs [of rnd A B] by (metis length_map)
  have nth: "type (calculateDiffs rnd A B ! j) = typeOfOp (?ks ! j)" if "j < length ?ks" for j
    using that map_type_calculateDiffs [of rnd A B] len by (metis nth_map)
  have ord: "\<not> insertThenDelete ?ks"
    by (rule remdups_adj_order) (rule editScript_order)
  have adj: "?ks ! i \<noteq> ?ks ! Suc i"
    using assms len distinct_adj_remdups_adj [of "map fst (editScript (tokenize A) (tokenize B))"]
    by (simp add: distinct_adj_conv_nth)
  from assms len have i: "i < length ?ks" "Suc i < length ?ks" by simp_all
  show ?thesis
    using adj insertThenDelete_nth [OF ord i(2)] nth [OF i(1)] nth [OF i(2)]
    by (auto simp: typeOfOp_Added typeOfOp_Removed inj_typeOfOp)
qed


text \<open>
  Claim C2. Within a changed region of the sequence returned by \<open>calculateDiffs\<close>, removed
  content precedes added content: neighbouring chunks differ in type and an \<open>added\<close> chunk
  is never immediately followed by a \<open>removed\<close> chunk, so a changed region is one removed
  chunk, one added chunk, or a removed chunk followed by an added chunk. For two non-empty
  inputs without a common token the result is one \<open>removed\<close> chunk holding the original
  followed by one \<open>added\<close> chunk holding the revised text. For \<open>"A B C"\<close> against
  \<open>"A X C"\<close> the removed chunk \<open>"B "\<close> is immediately followed by the added chunk \<open>"X "\<close>,
  between the unchanged chunks \<open>"A "\<close> and \<open>"C"\<close>.
\<close>

theorem removed_precedes_added:
  "(\<forall>i. Suc i < length (calculateDiffs rnd A B) \<longrightarrow>
       type (calculateDiffs rnd A B ! i) \<noteq> type (calculateDiffs rnd A B ! Suc i)
     \<and> \<not> (type (calculateDiffs rnd A B ! i) = Added
          \<and> type (calculateDiffs rnd A B ! Suc i) = Removed))
   \<and> (A \<noteq> [] \<and> B \<noteq> [] \<and> set (tokenize A) \<inter> set (tokenize B) = {} \<longrightarrow>
        map (\<lambda>c. (type c, DiffChunk.value c)) (calculateDiffs rnd A B)
          = [(Removed, A), (Added, B)])
   \<and> map (\<lambda>c. (type c, DiffChunk.value c)) (calculateDiffs rnd ''A B C'' ''A X C'')
        = [(Unchanged, ''A ''), (Removed, ''B ''), (Added, ''X ''), (Unchanged, ''C'')]"
proof (intro conjI allI impI)
  fix i assume "Suc i < length (calculateDiffs rnd A B)"
  from removed_before_added [OF this]
  show "type (calculateDiffs rnd A B ! i) \<noteq> type (calculateDiffs rnd A B ! Suc i)"
    and "\<not> (type (calculateDiffs rnd A B ! i) = Added
          \<and> type (calculateDiffs rnd A B ! Suc i) = Removed)"
    by blast+
next
  assume "A \<noteq> [] \<and> B \<noteq> [] \<and> set (tokenize A) \<inter> set (tokenize B) = {}"
  then show "map (\<lambda>c. (type c, DiffChunk.value c)) (calculateDiffs rnd A B)
          = [(Removed, A), (Added, B)]"
    by (simp add: disjoint_chunks)
next
  show "map (\<lambda>c. (type c, DiffChunk.value c)) (calculateDiffs rnd ''A B C'' ''A X C'')
        = [(Unchanged, ''A ''), (Removed, ''B ''), (Added, ''X ''), (Unchanged, ''C'')]"
    by (simp add: type_value_calculateDiffs typeOfOp_def isSpace_def)
qed

theorem removed_precedes_added_witness:
  "''Hello world'' \<noteq> [] \<and> ''Goodbye moon'' \<noteq> []
   \<and> set (tokenize ''Hello world'') \<inter> set (tokenize ''Goodbye moon'') = {}
   \<and> map (\<lambda>c. (type c, DiffChunk.value c))
         (calculateDiffs (\<lambda>i. ''0.i'') ''Hello world'' ''Goodbye moon'')
       = [(Removed, ''Hello world''), (Added, ''Goodbye moon'')]
   \<and> Suc 0 < length (calculateDiffs (\<lambda>i. ''0.i'') ''Hello world'' ''Goodbye moon'')
   \<and> type (calculateDiffs (\<lambda>i. ''0.i'') ''Hello world'' ''Goodbye moon'' ! 0)
       \<noteq> type (calculateDiffs (\<lambda>i. ''0.i'') ''Hello world'' ''Goodbye moon'' ! Suc 0)"
proof -
  let ?cs = "calculateDiffs (\<lambda>i. ''0.i'') ''Hello world'' ''Goodbye moon''"
  note inst = removed_precedes_added [of "\<lambda>i. ''0.i''" "''Hello world''" "''Goodbye moon''"]
  have tok: "set (tokenize ''Hello world'') \<inter> set (tokenize ''Goodbye moon'') = {}"
    by (simp add: isSpace_def)
  have ne: "''Hello world'' \<noteq> []" "''Goodbye moon'' \<noteq> []" by simp_all
  from inst tok ne have chunks: "map (\<lambda>c. (type c, DiffChunk.value c)) ?cs
       = [(Removed, ''Hello world''), (Added, ''Goodbye moon'')]"
    by blast
  have "length (map (\<lambda>c. (type c, DiffChunk.value c)) ?cs) = 2"
    by (simp only: chunks) simp
  then have len: "Suc 0 < length ?cs" by simp
  with inst have "type (?cs ! 0) \<noteq> type (?cs ! Suc 0)" by blast
  with tok ne chunks len show ?thesis by blast
qed


subsection \<open>Identical inputs, empty inputs, identifiers\<close>

text \<open>
  Claim C5. \<open>calculateDiffs("", "")\<close> is the empty sequence and its clean text is empty. For
  every string A, all chunks of \<open>calculateDiffs(A, A)\<close> are of type \<open>unchanged\<close> and their
  values concatenate to A; when A is not empty there is exactly one chunk, holding A.
\<close>

theorem identity_and_emptiness:
  "calculateDiffs rnd [] [] = []
   \<and> getCleanText (calculateDiffs rnd [] []) = []
   \<and> (\<forall>c \<in> set (calculateDiffs rnd A A). type c = Unchanged)
   \<and> concat (map DiffChunk.value (calculateDiffs rnd A A)) = A
   \<and> (A \<noteq> [] \<longrightarrow> length (calculateDiffs rnd A A) = 1
        \<and> DiffChunk.value (calculateDiffs rnd A A ! 0) = A)"
  by (simp add: calculateDiffs_same getCleanText_def)

theorem identity_and_emptiness_witness:
  "''Hello world'' \<noteq> []
   \<and> length (calculateDiffs (\<lambda>i. ''0.i'') ''Hello world'' ''Hello world'') = 1
   \<and> DiffChunk.value (calculateDiffs (\<lambda>i. ''0.i'') ''Hello world'' ''Hello world'' ! 0)
       = ''Hello world''
   \<and> type (calculateDiffs (\<lambda>i. ''0.i'') ''Hello world'' ''Hello world'' ! 0) = Unchanged"
proof -
  let ?cs = "calculateDiffs (\<lambda>i. ''0.i'') ''Hello world'' ''Hello world''"
  note inst = identity_and_emptiness [of "\<lambda>i. ''0.i''" "''Hello world''"]
  have ne: "''Hello world'' \<noteq> []" by simp
  with inst have len: "length ?cs = 1" and val: "DiffChunk.value (?cs ! 0) = ''Hello world''"
    by blast+
  from len have "?cs ! 0 \<in> set ?cs" by simp
  with inst have "type (?cs ! 0) = Unchanged" by blast
  with ne len val show ?thesis by blast
qed

lemma id_mapRawDiffs:
  "map id' (mapRawDiffs rnd rawDiffs) = map (\<lambda>i. generateId (rnd i)) [0..<length rawDiffs]"
  by (rule nth_equalityI) (simp_all add: length_mapRawDiffs nth_mapRawDiffs chunkOfPart_def)

lemma nth_id_mapRawDiffs:
  "i < length rawDiffs \<Longrightarrow> id' (mapRawDiffs rnd rawDiffs ! i) = generateId (rnd i)"
  by (simp add: nth_mapRawDiffs chunkOfPart_def)

lemma distinct_ids_mapRawDiffs:
  "distinct (map id' (mapRawDiffs rnd rawDiffs))
   \<longleftrightarrow> inj_on (\<lambda>i. generateId (rnd i)) {..<length rawDiffs}"
  by (simp add: id_mapRawDiffs distinct_map atLeast0LessThan)

text \<open>
  Claim C4 says that the \<open>id\<close> values of one result are pairwise distinct for every pair
  of input strings. They are not for every outcome of the random draws: the draws 0.7 and
  0.7 + 2^-52 have the base-36 renderings \<open>0.p777777777\<close> and \<open>0.p777777778\<close>, which
  agree on the nine code units that \<open>substr(2, 9)\<close> keeps, so the two chunks of
  \<open>calculateDiffs("a", "b")\<close> both get the id \<open>p77777777\<close>.
\<close>

theorem ids_collide:
  "map id' (calculateDiffs ((!) [''0.p777777777'', ''0.p777777778'']) ''a'' ''b'')
     = [''p77777777'', ''p77777777'']
   \<and> \<not> distinct (map id' (calculateDiffs ((!) [''0.p777777777'', ''0.p777777778'']) ''a'' ''b''))
   \<and> \<not> distinct (map id' (mapRawDiffs ((!) [''0.p777777777'', ''0.p777777778''])
          [\<lparr>Change.value = ''a'', added = False, removed = True\<rparr>,
           \<lparr>Change.value = ''b'', added = True, removed = False\<rparr>]))"
proof -
  have "map id' (calculateDiffs ((!) [''0.p777777777'', ''0.p777777778'']) ''a'' ''b'')
     = [''p77777777'', ''p77777777'']"
    by (simp add: calculateDiffs_def diffWords_def mapRawDiffs_def chunkOfPart_def
          generateId_def upt_rec)
  moreover have "map id' (mapRawDiffs ((!) [''0.p777777777'', ''0.p777777778''])
          [\<lparr>Change.value = ''a'', added = False, removed = True\<rparr>,
           \<lparr>Change.value = ''b'', added = True, removed = False\<rparr>])
        = [''p77777777'', ''p77777777'']"
    by (simp add: mapRawDiffs_def chunkOfPart_def generateId_def upt_rec)
  ultimately show ?thesis by simp
qed

text \<open>
  Claim C4, amended. The \<open>id\<close> of the chunk at index \<open>i\<close> is the part that \<open>generateId\<close> keeps
  of the \<open>i\<close>-th random draw of the call, and nothing else: the \<open>id\<close> values of one result
  are pairwise distinct exactly when the kept parts of the draws made for its chunks are
  pairwise distinct. The code draws them at random and does not compare them.
\<close>

theorem ids_distinct_iff_kept_digits_distinct:
  "(\<forall>i < length (calculateDiffs rnd A B).
       id' (calculateDiffs rnd A B ! i) = generateId (rnd i))
   \<and> (distinct (map id' (calculateDiffs rnd A B))
        \<longleftrightarrow> inj_on (\<lambda>i. generateId (rnd i)) {..<length (calculateDiffs rnd A B)})
   \<and> (\<forall>i < length rawDiffs. id' (mapRawDiffs rnd rawDiffs ! i) = generateId (rnd i))
   \<and> (distinct (map id' (mapRawDiffs rnd rawDiffs))
        \<longleftrightarrow> inj_on (\<lambda>i. generateId (rnd i)) {..<length rawDiffs})"
  by (simp add: calculateDiffs_def length_mapRawDiffs nth_id_mapRawDiffs distinct_ids_mapRawDiffs)

theorem ids_distinct_iff_kept_digits_distinct_witness:
  "0 < length (calculateDiffs ((!) [''0.p777777777'', ''0.4fzyo82mvyt'']) ''a'' ''b'')
   \<and> id' (calculateDiffs ((!) [''0.p777777777'', ''0.4fzyo82mvyt'']) ''a'' ''b'' ! 0) = ''p77777777''
   \<and> inj_on (\<lambda>i. generateId ([''0.p777777777'', ''0.4fzyo82mvyt''] ! i))
         {..<length (calculateDiffs ((!) [''0.p777777777'', ''0.4fzyo82mvyt'']) ''a'' ''b'')}
   \<and> distinct (map id' (calculateDiffs ((!) [''0.p777777777'', ''0.4fzyo82mvyt'']) ''a'' ''b''))"
proof -
  let ?rnd = "(!) [''0.p777777777'', ''0.4fzyo82mvyt'']"
  let ?cs = "calculateDiffs ?rnd ''a'' ''b''"
  note inst = ids_distinct_iff_kept_digits_distinct [of ?rnd "''a''" "''b''" "[]"]
  have len: "length ?cs = 2"
    by (simp add: calculateDiffs_def diffWords_def mapRawDiffs_def)
  have inj: "inj_on (\<lambda>i. generateId ([''0.p777777777'', ''0.4fzyo82mvyt''] ! i)) {..<length ?cs}"
  proof -
    have two: "{..<(2::nat)} = {0, Suc 0}" by auto
    show ?thesis unfolding len two by (simp add: generateId_def)
  qed
  from len have pos: "0 < length ?cs" by simp
  with inst have "id' (?cs ! 0) = generateId (?rnd 0)" by blast
  then have id0: "id' (?cs ! 0) = ''p77777777''" by (simp add: generateId_def)
  from inst inj have "distinct (map id' ?cs)" by blast
  with pos id0 inj show ?thesis by blast
qed



subsection \<open>The markup\<close>

lemma replaceAll_Nil: "replaceAll c r [] = []"
  by (simp add: replaceAll_def)

lemma replaceAll_Cons: "replaceAll c r (x # xs) = (if x = c then r else [x]) @ replaceAll c r xs"
  by (simp add: replaceAll_def)

lemma replaceAll_append: "replaceAll c r (xs @ ys) = replaceAll c r xs @ replaceAll c r ys"
  by (simp add: replaceAll_def)

lemma escapeValue_Nil: "escapeValue [] = []"
  by (simp add: escapeValue_def replaceAll_Nil)

lemma escapeValue_Cons: "escapeValue (c # v) = escapeChar c @ escapeValue v"
  by (simp add: escapeValue_def escapeChar_def replaceAll_Cons replaceAll_append replaceAll_Nil)

lemma escapeValue_charwise: "escapeValue v = concat (map escapeChar v)"
  by (induction v) (simp_all add: escapeValue_Nil escapeValue_Cons)

lemma wellEscaped_escapeChar: "wellEscaped rest \<Longrightarrow> wellEscaped (escapeChar c @ rest)"
  by (simp add: escapeChar_def)

lemma wellEscaped_escapeValue: "wellEscaped (escapeValue v)"
  by (induction v) (simp_all add: escapeValue_Nil escapeValue_Cons wellEscaped_escapeChar)

lemma newline_escapeChar: "CHR 0x0A \<notin> set (escapeChar c)"
  by (simp add: escapeChar_def)

lemma newline_escapeValue: "CHR 0x0A \<notin> set (escapeValue v)"
  by (simp add: escapeValue_charwise newline_escapeChar)


lemma countOcc_skip:
  assumes "countOcc [a, b] xs = 0" and "xs = [] \<or> last xs \<noteq> a"
  shows "countOcc (a # b # p) (xs @ ys) = countOcc (a # b # p) ys"
  using assms
proof (induction xs)
  case Nil
  show ?case by simp
next
  case (Cons c cs)
  from Cons.prems(1) have np: "\<not> prefix [a, b] (c # cs)" and tl0: "countOcc [a, b] cs = 0"
    by (simp_all split: if_splits)
  from Cons.prems(2) have tl1: "cs = [] \<or> last cs \<noteq> a"
    by (cases cs) simp_all
  have "\<not> prefix (a # b # p) (c # cs @ ys)"
  proof
    assume pre: "prefix (a # b # p) (c # cs @ ys)"
    then have ca: "c = a" and rest: "prefix (b # p) (cs @ ys)" by simp_all
    show False
    proof (cases cs)
      case Nil
      with Cons.prems(2) ca show False by simp
    next
      case (Cons d ds)
      with rest have "d = b" by simp
      with np ca Cons show False by simp
    qed
  qed
  with Cons.IH [OF tl0 tl1] show ?case by simp
qed

lemma no_close_append:
  assumes xs: "countOcc [a, b] xs = 0 \<and> (xs = [] \<or> last xs \<noteq> a)"
    and ys: "countOcc [a, b] ys = 0 \<and> (ys = [] \<or> last ys \<noteq> a)"
  shows "countOcc [a, b] (xs @ ys) = 0 \<and> (xs @ ys = [] \<or> last (xs @ ys) \<noteq> a)"
proof
  show "countOcc [a, b] (xs @ ys) = 0"
    using countOcc_skip [of a b xs "[]" ys] xs ys by simp
  show "xs @ ys = [] \<or> last (xs @ ys) \<noteq> a"
    using xs ys by (cases "ys = []") simp_all
qed

lemma no_tag_escapeChar:
  "b \<noteq> CHR ''b'' \<Longrightarrow>
   countOcc [CHR ''<'', b] (escapeChar c) = 0
   \<and> (escapeChar c = [] \<or> last (escapeChar c) \<noteq> CHR ''<'')"
  by (simp add: escapeChar_def)

lemma no_tag_escapeValue:
  assumes "b \<noteq> CHR ''b''"
  shows "countOcc [CHR ''<'', b] (escapeValue v) = 0
   \<and> (escapeValue v = [] \<or> last (escapeValue v) \<noteq> CHR ''<'')"
proof (induction v)
  case Nil
  show ?case by (simp add: escapeValue_Nil)
next
  case (Cons c v)
  show ?case
    unfolding escapeValue_Cons
    by (rule no_close_append) (rule no_tag_escapeChar [OF assms], rule Cons.IH)
qed

lemma chunkHtml_openTag:
  "chunkHtml c = openTag (type c) @ escapeValue (DiffChunk.value c) @ ''</span>''"
  by (simp add: chunkHtml_by_type openTag_def)

lemma no_close_open:
  "countOcc ''</'' (openTag t) = 0 \<and> (openTag t = [] \<or> last (openTag t) \<noteq> CHR ''<'')"
  by (cases t) (simp_all add: openTag_def addedOpen_def removedOpen_def)

lemma openTag_Cons: "openTag t = CHR ''<'' # tl (openTag t)"
  by (cases t) (simp_all add: openTag_def addedOpen_def removedOpen_def)

lemma prefix_span_openTag: "prefix ''<span'' (openTag t @ rest)"
  by (cases t) (simp_all add: openTag_def addedOpen_def removedOpen_def)

lemma no_span_tl_open:
  "countOcc ''<s'' (tl (openTag t)) = 0 \<and> (tl (openTag t) = [] \<or> last (tl (openTag t)) \<noteq> CHR ''<'')"
  by (cases t) (simp_all add: openTag_def addedOpen_def removedOpen_def)

lemma countOcc_close_chunkHtml:
  "countOcc ''</span>'' (chunkHtml c @ rest) = Suc (countOcc ''</span>'' rest)"
proof -
  let ?body = "openTag (type c) @ escapeValue (DiffChunk.value c)"
  have body: "countOcc ''</'' ?body = 0 \<and> (?body = [] \<or> last ?body \<noteq> CHR ''<'')"
    by (rule no_close_append) (rule no_close_open, rule no_tag_escapeValue, simp)
  have "countOcc ''</span>'' (chunkHtml c @ rest) = countOcc ''</span>'' (?body @ (''</span>'' @ rest))"
    by (simp add: chunkHtml_openTag)
  also have "\<dots> = countOcc ''</span>'' (''</span>'' @ rest)"
    using countOcc_skip [of "CHR ''<''" "CHR ''/''" ?body "''span>''" "''</span>'' @ rest"] body
    by simp
  also have "\<dots> = Suc (countOcc ''</span>'' (''/span>'' @ rest))"
    by simp
  also have "countOcc ''</span>'' (''/span>'' @ rest) = countOcc ''</span>'' rest"
    using countOcc_skip [of "CHR ''<''" "CHR ''/''" "''/span>''" "''span>''" rest] by simp
  finally show ?thesis .
qed

lemma countOcc_close_getRedlineHtml:
  "countOcc ''</span>'' (getRedlineHtml chunks) = length chunks"
  by (induction chunks) (simp_all add: getRedlineHtml_def countOcc_close_chunkHtml)

lemma countOcc_open_chunkHtml:
  "countOcc ''<span'' (chunkHtml c @ rest) = Suc (countOcc ''<span'' rest)"
proof -
  let ?tail = "(tl (openTag (type c)) @ escapeValue (DiffChunk.value c)) @ ''</span>''"
  have tail: "countOcc ''<s'' ?tail = 0 \<and> (?tail = [] \<or> last ?tail \<noteq> CHR ''<'')"
    by (rule no_close_append, rule no_close_append)
       (rule no_span_tl_open, rule no_tag_escapeValue, simp_all)
  have "chunkHtml c @ rest = CHR ''<'' # (?tail @ rest)"
    by (subst chunkHtml_openTag, subst openTag_Cons) simp
  moreover have "prefix ''<span'' (chunkHtml c @ rest)"
    using prefix_span_openTag [of "type c"] by (simp add: chunkHtml_openTag)
  ultimately have "countOcc ''<span'' (chunkHtml c @ rest) = Suc (countOcc ''<span'' (?tail @ rest))"
    by (simp del: append_assoc)
  also have "countOcc ''<span'' (?tail @ rest) = countOcc ''<span'' rest"
    using countOcc_skip [of "CHR ''<''" "CHR ''s''" ?tail "''pan''" rest] tail by simp
  finally show ?thesis .
qed

lemma countOcc_open_getRedlineHtml:
  "countOcc ''<span'' (getRedlineHtml chunks) = length chunks"
  by (induction chunks) (simp_all add: getRedlineHtml_def countOcc_open_chunkHtml)

lemma countOcc_br_escapeValue:
  "countOcc ''<br>'' (escapeValue v) = length (filter (\<lambda>c. c = CHR 0x0A) v)"
proof (induction v)
  case Nil
  show ?case by (simp add: escapeValue_Nil)
next
  case (Cons c v)
  show ?case
  proof (cases "c = CHR 0x0A")
    case True
    have "countOcc ''<br>'' (''br>'' @ escapeValue v) = countOcc ''<br>'' (escapeValue v)"
      using countOcc_skip [of "CHR ''<''" "CHR ''b''" "''br>''" "''r>''" "escapeValue v"] by simp
    with True Cons show ?thesis
      by (simp add: escapeValue_Cons escapeChar_def)
  next
    case False
    have "countOcc ''<b'' (escapeChar c) = 0 \<and> (escapeChar c = [] \<or> last (escapeChar c) \<noteq> CHR ''<'')"
      using False by (simp add: escapeChar_def)
    then have "countOcc ''<br>'' (escapeChar c @ escapeValue v) = countOcc ''<br>'' (escapeValue v)"
      using countOcc_skip [of "CHR ''<''" "CHR ''b''" "escapeChar c" "''r>''" "escapeValue v"] by simp
    with False Cons show ?thesis by (simp add: escapeValue_Cons)
  qed
qed

lemma chunkHtml_fun:
  "chunkHtml = (\<lambda>c. openTag (type c) @ escapeValue (DiffChunk.value c) @ ''</span>'')"
  by (rule ext) (rule chunkHtml_openTag)

lemma getRedlineHtml_spans:
  "getRedlineHtml chunks
   = concat (map (\<lambda>c. openTag (type c) @ escapeValue (DiffChunk.value c) @ ''</span>'') chunks)"
  by (simp only: getRedlineHtml_def chunkHtml_fun)

lemma newline_getRedlineHtml: "CHR 0x0A \<notin> set (getRedlineHtml chunks)"
proof -
  have "CHR 0x0A \<notin> set (openTag t)" for t
    by (cases t) (simp_all add: openTag_def addedOpen_def removedOpen_def)
  then show ?thesis
    by (simp add: getRedlineHtml_spans newline_escapeValue)
qed

lemma style_facts:
  "\<not> sublist ''style'' (openTag Unchanged)"
  "sublist ''text-decoration: underline'' (openTag Added)"
  "\<not> sublist ''line-through'' (openTag Added)"
  "sublist ''text-decoration: line-through'' (openTag Removed)"
  "\<not> sublist ''underline'' (openTag Removed)"
  by (simp_all add: openTag_def addedOpen_def removedOpen_def sublist_code(3))


lemma getRedlineHtml_single:
  "getRedlineHtml [c] = openTag (type c) @ escapeValue (DiffChunk.value c) @ ''</span>''"
  by (simp add: getRedlineHtml_def chunkHtml_openTag)

lemma getRedlineHtml_concat_singles:
  "getRedlineHtml chunks = concat (map (\<lambda>c. getRedlineHtml [c]) chunks)"
  by (simp add: getRedlineHtml_def)

text \<open>
  Claim C3. Every character of a chunk's value is emitted escaped: the text that
  \<open>getRedlineHtml\<close> writes for a value is the concatenation of the escaped forms of its
  characters, so it contains no unescaped \<open>&\<close>, \<open><\<close> or \<open>>\<close>; each line feed of the value
  appears as one marker \<open><br>\<close>, and the output contains no raw line feed at all.
\<close>

theorem escaping_safety:
  "escapeValue v = concat (map escapeChar v)
   \<and> wellEscaped (escapeValue v)
   \<and> countOcc ''<br>'' (escapeValue v) = length (filter (\<lambda>c. c = CHR 0x0A) v)
   \<and> getRedlineHtml chunks
       = concat (map (\<lambda>c. openTag (type c) @ concat (map escapeChar (DiffChunk.value c)) @ ''</span>'')
           chunks)
   \<and> CHR 0x0A \<notin> set (getRedlineHtml chunks)"
proof (intro conjI)
  show "escapeValue v = concat (map escapeChar v)" by (rule escapeValue_charwise)
  show "wellEscaped (escapeValue v)" by (rule wellEscaped_escapeValue)
  show "countOcc ''<br>'' (escapeValue v) = length (filter (\<lambda>c. c = CHR 0x0A) v)"
    by (rule countOcc_br_escapeValue)
  show "getRedlineHtml chunks
       = concat (map (\<lambda>c. openTag (type c) @ concat (map escapeChar (DiffChunk.value c)) @ ''</span>'')
           chunks)"
    by (simp only: getRedlineHtml_spans escapeValue_charwise)
  show "CHR 0x0A \<notin> set (getRedlineHtml chunks)" by (rule newline_getRedlineHtml)
qed

text \<open>
  Claim C8. \<open>getRedlineHtml\<close> emits one span per chunk, in the order of the chunks: the
  output is the concatenation of the outputs for the single chunks, each of them the
  opening tag for the chunk's type, the escaped value and the closing tag, and the output
  contains exactly as many opening \<open><span\<close> and closing \<open></span>\<close> tags as there are
  chunks. An \<open>unchanged\<close> chunk gets the bare tag, an \<open>added\<close> chunk an underline and a
  \<open>removed\<close> chunk a line-through decoration.
\<close>

theorem one_span_per_chunk:
  "getRedlineHtml chunks = concat (map (\<lambda>c. getRedlineHtml [c]) chunks)
   \<and> getRedlineHtml [c] = openTag (type c) @ escapeValue (DiffChunk.value c) @ ''</span>''
   \<and> countOcc ''<span'' (getRedlineHtml chunks) = length chunks
   \<and> countOcc ''</span>'' (getRedlineHtml chunks) = length chunks
   \<and> openTag Unchanged = ''<span>''
   \<and> sublist ''text-decoration: underline'' (openTag Added)
   \<and> \<not> sublist ''line-through'' (openTag Added)
   \<and> sublist ''text-decoration: line-through'' (openTag Removed)
   \<and> \<not> sublist ''underline'' (openTag Removed)"
proof (intro conjI)
  show "getRedlineHtml chunks = concat (map (\<lambda>c. getRedlineHtml [c]) chunks)"
    by (rule getRedlineHtml_concat_singles)
  show "getRedlineHtml [c] = openTag (type c) @ escapeValue (DiffChunk.value c) @ ''</span>''"
    by (rule getRedlineHtml_single)
  show "countOcc ''<span'' (getRedlineHtml chunks) = length chunks"
    by (rule countOcc_open_getRedlineHtml)
  show "countOcc ''</span>'' (getRedlineHtml chunks) = length chunks"
    by (rule countOcc_close_getRedlineHtml)
  show "openTag Unchanged = ''<span>''" by (simp add: openTag_def)
qed (rule style_facts)+


subsection \<open>The revision service\<close>

lemma trim_Nil_iff: "trim s = [] \<longleftrightarrow> (\<forall>c \<in> set s. isSpace c)"
proof
  assume "trim s = []"
  then have "dropWhile isSpace (rev (dropWhile isSpace s)) = []" by (simp add: trim_def)
  then have all: "\<forall>c \<in> set (dropWhile isSpace s). isSpace c"
    by simp
  show "\<forall>c \<in> set s. isSpace c"
  proof (rule ccontr)
    assume "\<not> (\<forall>c \<in> set s. isSpace c)"
    then have "dropWhile isSpace s \<noteq> []" by simp
    then have "\<not> isSpace (hd (dropWhile isSpace s))" by (rule hd_dropWhile)
    moreover have "hd (dropWhile isSpace s) \<in> set (dropWhile isSpace s)"
      using \<open>dropWhile isSpace s \<noteq> []\<close> by simp
    ultimately show False using all by blast
  qed
next
  assume "\<forall>c \<in> set s. isSpace c"
  then have "dropWhile isSpace s = []" by simp
  then show "trim s = []" by (simp only: trim_def) simp
qed

text \<open>
  Claim C9 says that \<open>improveText\<close> returns the original text when the remote service
  fails. It does not: with a service that throws on every request, \<open>improveText("hello")\<close>
  throws the service's error.
\<close>

theorem improveText_rethrows:
  "(Inl \<circ> ServiceError) (revisionPrompt ''hello'') = Inl (ServiceError (revisionPrompt ''hello''))
   \<and> fst (improveText (Inl \<circ> ServiceError) ''hello'' \<lparr>remoteCalls = [], consoleErrors = []\<rparr>)
       = Inl (ServiceError (revisionPrompt ''hello''))
   \<and> fst (improveText (Inl \<circ> ServiceError) ''hello'' \<lparr>remoteCalls = [], consoleErrors = []\<rparr>)
       \<noteq> Inr ''hello''"
  by (simp add: improveText_def trim_def isSpace_def)

text \<open>
  Claim C9, amended. For empty or white-space-only input \<open>improveText\<close> returns the empty
  string and sends nothing to the remote service. For any other input it sends exactly one
  request; when the remote call throws, it logs the error and throws it on to the caller;
  when the call returns a response without text, or with a text that trims to the empty
  string, it returns the original input unchanged; otherwise it returns the trimmed
  response text.
\<close>

theorem improveText_policy:
  "((\<forall>c \<in> set text. isSpace c) \<longrightarrow> improveText remote text w = (Inr [], w))
   \<and> (\<not> (\<forall>c \<in> set text. isSpace c) \<longrightarrow>
        remoteCalls (snd (improveText remote text w)) = remoteCalls w @ [revisionPrompt text]
      \<and> (remote (revisionPrompt text) = Inl e \<longrightarrow>
            fst (improveText remote text w) = Inl e
          \<and> consoleErrors (snd (improveText remote text w)) = consoleErrors w @ [e])
      \<and> (remote (revisionPrompt text) = Inr None \<longrightarrow>
            fst (improveText remote text w) = Inr text)
      \<and> (remote (revisionPrompt text) = Inr (Some s) \<longrightarrow>
            fst (improveText remote text w) = Inr (if trim s = [] then text else trim s)))"
proof (cases "\<forall>c \<in> set text. isSpace c")
  case True
  then have "trim text = []" by (simp add: trim_Nil_iff)
  with True show ?thesis by (simp add: improveText_def)
next
  case False
  then have "trim text \<noteq> []" "text \<noteq> []" by (auto simp: trim_Nil_iff)
  with False show ?thesis
    by (auto simp: improveText_def Let_def split: sum.splits option.splits)
qed

theorem improveText_policy_witness:
  "improveText (\<lambda>p. Inl (ServiceError ''503'')) ''  ''
      \<lparr>remoteCalls = [], consoleErrors = []\<rparr>
     = (Inr [], \<lparr>remoteCalls = [], consoleErrors = []\<rparr>)
   \<and> fst (improveText (\<lambda>p. Inl (ServiceError ''503'')) ''hello''
          \<lparr>remoteCalls = [], consoleErrors = []\<rparr>) = Inl (ServiceError ''503'')
   \<and> remoteCalls (snd (improveText (\<lambda>p. Inl (ServiceError ''503'')) ''hello''
          \<lparr>remoteCalls = [], consoleErrors = []\<rparr>)) = [revisionPrompt ''hello'']
   \<and> fst (improveText (\<lambda>p. Inr None) ''hello''
          \<lparr>remoteCalls = [], consoleErrors = []\<rparr>) = Inr ''hello''
   \<and> fst (improveText (\<lambda>p. Inr (Some '' Hello. '')) ''hello''
          \<lparr>remoteCalls = [], consoleErrors = []\<rparr>) = Inr ''Hello.''"
proof -
  let ?w = "\<lparr>remoteCalls = [], consoleErrors = []\<rparr>"
  have blank: "\<forall>c \<in> set ''  ''. isSpace c" by (simp add: isSpace_def)
  have word: "\<not> (\<forall>c \<in> set ''hello''. isSpace c)" by (simp add: isSpace_def)
  have tr: "trim '' Hello. '' = ''Hello.''" by (simp add: trim_def isSpace_def)
  show ?thesis
    using improveText_policy [of "''  ''" "\<lambda>p. Inl (ServiceError ''503'')" ?w] blank
      improveText_policy [of "''hello''" "\<lambda>p. Inl (ServiceError ''503'')" ?w "ServiceError ''503''"]
      improveText_policy [of "''hello''" "\<lambda>p. Inr None" ?w]
      improveText_policy [of "''hello''" "\<lambda>p. Inr (Some '' Hello. '')" ?w _ "'' Hello. ''"]
      word tr
    by simp
qed


subsection \<open>Sizes and empty inputs\<close>

lemma length_coalesce_le: "length (coalesce ops) \<le> length ops"
proof (induction ops)
  case Nil
  show ?case by simp
next
  case (Cons p ops)
  obtain k t where "p = (k, t)" by (cases p)
  with Cons show ?case by (auto split: list.splits)
qed

lemma length_editScript_le: "length (editScript xs ys) \<le> length xs + length ys"
  by (induction xs ys rule: editScript.induct) auto

lemma length_calculateDiffs_le:
  "length (calculateDiffs rnd A B) \<le> length (tokenize A) + length (tokenize B)"
proof -
  have "length (calculateDiffs rnd A B) = length (coalesce (editScript (tokenize A) (tokenize B)))"
    by (simp add: calculateDiffs_def diffWords_def length_mapRawDiffs)
  also have "\<dots> \<le> length (editScript (tokenize A) (tokenize B))"
    by (rule length_coalesce_le)
  also have "\<dots> \<le> length (tokenize A) + length (tokenize B)"
    by (rule length_editScript_le)
  finally show ?thesis .
qed

lemma editScript_Nil2: "editScript xs [] = map (Pair Delete) xs"
  by (cases xs) simp_all

lemma calculateDiffs_empty_original:
  "B \<noteq> [] \<Longrightarrow> map (\<lambda>c. (type c, DiffChunk.value c)) (calculateDiffs rnd [] B) = [(Added, B)]"
  by (simp add: type_value_calculateDiffs coalesce_one_kind tokenize_Nil_iff concat_tokenize
        typeOfOp_def)

lemma calculateDiffs_empty_revised:
  "A \<noteq> [] \<Longrightarrow> map (\<lambda>c. (type c, DiffChunk.value c)) (calculateDiffs rnd A []) = [(Removed, A)]"
  by (simp add: type_value_calculateDiffs editScript_Nil2 coalesce_one_kind tokenize_Nil_iff
        concat_tokenize typeOfOp_def)

lemma length_getCleanText_le:
  "length (getCleanText chunks) \<le> length (concat (map DiffChunk.value chunks))"
  by (induction chunks) (simp_all add: getCleanText_def)


end
